theory Spec2Isabelle
  imports Main "HOL-Library.Word"
begin

section \<open>Wire model (package oai)\<close>

text \<open>
  Go strings are byte sequences and are modelled as \<open>string\<close>; a \<^verbatim>\<open>[]byte\<close> is a
  list of 8-bit words. Every struct of \<^verbatim>\<open>oai.go\<close> is a record with the fields in the
  order of the source. Field names that several structs share are written with the
  record's name in front (\<open>ListIdentifiers.ResumptionToken\<close>).
\<close>

type_synonym byte = "8 word"

record Header =
  Status :: string
  Identifier :: string
  DateStamp :: string
  SetSpec :: "string list"

record Metadata =
  Body :: "byte list"

record About =
  Body :: "byte list"

record Record =
  Header :: Header
  Metadata :: Metadata
  About :: About

record ListIdentifiers =
  Headers :: "Header list"
  ResumptionToken :: string

record ListRecords =
  Records :: "Record list"
  ResumptionToken :: string

record GetRecord =
  Record :: Record

record RequestNode =
  Verb :: string
  Set :: string
  MetadataPrefix :: string

record OAIError =
  Code :: string
  Message :: string

record MetadataFormat =
  MetadataPrefix :: string
  Schema :: string
  MetadataNamespace :: string

record ListMetadataFormats =
  MetadataFormat :: "MetadataFormat list"

record Description =
  Body :: "byte list"

record Set =
  SetSpec :: string
  SetName :: string
  SetDescription :: Description

record ListSets =
  Set :: "Set list"

record Identify =
  RepositoryName :: string
  BaseURL :: string
  ProtocolVersion :: string
  AdminEmail :: "string list"
  EarliestDatestamp :: string
  DeletedRecord :: string
  Granularity :: string
  Description :: "Description list"

record Response =
  ResponseDate :: string
  Request :: RequestNode
  Error :: OAIError
  Identify :: Identify
  ListMetadataFormats :: ListMetadataFormats
  ListSets :: ListSets
  GetRecord :: GetRecord
  ListIdentifiers :: ListIdentifiers
  ListRecords :: ListRecords

record Request =
  BaseUrl :: string
  Set :: string
  MetadataPrefix :: string
  Verb :: string
  Identifier :: string
  ResumptionToken :: string
  From :: string
  Until :: string

section \<open>Request.String\<close>

text \<open>
  \<^verbatim>\<open>strings.Join(elems, sep)\<close> of the Go standard library: the elements in order, with
  \<open>sep\<close> between two neighbours.
\<close>

fun strings_Join :: "string list \<Rightarrow> string \<Rightarrow> string" where
  "strings_Join [] sep = ''''"
| "strings_Join [a] sep = a"
| "strings_Join (a # b # bs) sep = a @ sep @ strings_Join (b # bs) sep"

text \<open>
  The closure \<^verbatim>\<open>add\<close> of \<^verbatim>\<open>String\<close> appends to the captured slice \<open>qs\<close>; here the
  slice is passed and returned.
\<close>

definition add :: "string \<Rightarrow> string \<Rightarrow> string list \<Rightarrow> string list" where
  "add name value qs = (if value \<noteq> '''' then qs @ [name @ ''='' @ value] else qs)"

definition query :: "Request \<Rightarrow> string list" where
  "query req =
     (let qs = [];
          qs = add ''verb'' (Request.Verb req) qs;
          qs = add ''set'' (Request.Set req) qs;
          qs = add ''metadataPrefix'' (Request.MetadataPrefix req) qs;
          qs = add ''resumptionToken'' (Request.ResumptionToken req) qs;
          qs = add ''identifier'' (Request.Identifier req) qs;
          qs = add ''from'' (From req) qs;
          qs = add ''until'' (Until req) qs
      in qs)"

definition String :: "Request \<Rightarrow> string" where
  "String req = strings_Join [BaseUrl req, ''?'', strings_Join (query req) ''&''] ''''"

text \<open>
  The serialized target in the words of the specification: the seven parameters in
  their fixed order, those with an empty value left out, each remaining one written
  \<open>name=value\<close>, joined by \<open>&\<close> and put behind the base address.
\<close>

definition spec_parameters :: "Request \<Rightarrow> (string \<times> string) list" where
  "spec_parameters req =
     [(''verb'', Request.Verb req),
      (''set'', Request.Set req),
      (''metadataPrefix'', Request.MetadataPrefix req),
      (''resumptionToken'', Request.ResumptionToken req),
      (''identifier'', Request.Identifier req),
      (''from'', From req),
      (''until'', Until req)]"

definition spec_pair :: "string \<times> string \<Rightarrow> string" where
  "spec_pair p = fst p @ ''='' @ snd p"

definition spec_query :: "Request \<Rightarrow> string list" where
  "spec_query req = map spec_pair (filter (\<lambda>p. snd p \<noteq> '''') (spec_parameters req))"

text \<open>
  Joined by \<open>&\<close>, said without \<^verbatim>\<open>strings.Join\<close>: the first pair as it is, every
  later pair behind an \<open>&\<close>; no pair, no text.
\<close>

definition spec_joined :: "string list \<Rightarrow> string" where
  "spec_joined ps =
     (case ps of
        [] \<Rightarrow> ''''
      | p # later \<Rightarrow> p @ concat (map (\<lambda>q. CHR ''&'' # q) later))"

definition spec_target :: "Request \<Rightarrow> string" where
  "spec_target req = BaseUrl req @ ''?'' @ spec_joined (spec_query req)"

section \<open>Response.ResumptionToken\<close>

text \<open>
  The receiver is a pointer: \<open>None\<close> is the nil pointer. The two named results are
  returned as a pair.
\<close>

definition ResumptionToken :: "Response option \<Rightarrow> bool \<times> string" where
  "ResumptionToken resp =
     (case resp of
        None \<Rightarrow> (False, '''')
      | Some r \<Rightarrow>
          (let resumptionToken = ListIdentifiers.ResumptionToken (ListIdentifiers r);
               resumptionToken =
                 (if resumptionToken = '''' then ListRecords.ResumptionToken (ListRecords r)
                  else resumptionToken)
           in (if resumptionToken \<noteq> '''' then (True, resumptionToken)
               else (False, resumptionToken))))"

section \<open>Request.Perform\<close>

text \<open>
  \<^verbatim>\<open>Perform\<close> calls three library functions in a row, \<^verbatim>\<open>http.Get\<close>,
  \<^verbatim>\<open>ioutil.ReadAll\<close> and \<^verbatim>\<open>xml.Unmarshal\<close>, and panics on the first error. What the
  network and the decoder do is not part of the program: one GET has one of four
  outcomes, which carry the HTTP status code once \<^verbatim>\<open>http.Get\<close> has returned a
  response (\<^verbatim>\<open>http.Get\<close> reports no error for a status outside 2xx). After a
  successful \<^verbatim>\<open>xml.Unmarshal\<close> the result pointer is not nil.

  The transport is a parameter \<open>http_Get\<close>: it receives the target and the state of
  the world and returns the outcome and the new state. A panic is a value; the state
  at the moment of the panic is returned with it.
\<close>

datatype panic = GetPanic | ReadAllPanic | UnmarshalPanic | IndexOutOfRange | NilDereference

datatype http_outcome =
    GetError
  | ReadAllError int
  | UnmarshalError int
  | Decoded int Response

definition Perform ::
  "(string \<Rightarrow> 's \<Rightarrow> http_outcome \<times> 's) \<Rightarrow> Request \<Rightarrow> 's \<Rightarrow> (panic + Response option) \<times> 's" where
  "Perform http_Get req s =
     (case http_Get (String req) s of
        (GetError, s') \<Rightarrow> (Inl GetPanic, s')
      | (ReadAllError status, s') \<Rightarrow> (Inl ReadAllPanic, s')
      | (UnmarshalError status, s') \<Rightarrow> (Inl UnmarshalPanic, s')
      | (Decoded status r, s') \<Rightarrow> (Inr (Some r), s'))"

section \<open>Request.Harvest\<close>

text \<open>
  The recursion of \<^verbatim>\<open>Harvest\<close> has no bound: a remote that always sends a token keeps
  it going. \<open>None\<close> is the harvest that never returns. A harvest that returns gives
  the panic that ended it, if any, the request as the harvest left it (the receiver
  is mutated in place) and the state of the world. A callback is a function on the
  state of the world that may panic.
\<close>

partial_function (option) Harvest ::
  "(string \<Rightarrow> 's \<Rightarrow> http_outcome \<times> 's) \<Rightarrow> (Response option \<Rightarrow> 's \<Rightarrow> panic option \<times> 's)
     \<Rightarrow> Request \<Rightarrow> 's \<Rightarrow> (panic option \<times> Request \<times> 's) option" where
  "Harvest http_Get batchCallback req s =
     (case Perform http_Get req s of
        (Inl p, s1) \<Rightarrow> Some (Some p, req, s1)
      | (Inr oaiResponse, s1) \<Rightarrow>
          (case batchCallback oaiResponse s1 of
             (Some p, s2) \<Rightarrow> Some (Some p, req, s2)
           | (None, s2) \<Rightarrow>
               (case ResumptionToken oaiResponse of
                  (hasResumptionToken, resumptionToken) \<Rightarrow>
                    if hasResumptionToken = True then
                      Harvest http_Get batchCallback
                        (req\<lparr>Request.Set := '''', Request.MetadataPrefix := '''', From := '''',
                             Request.ResumptionToken := resumptionToken\<rparr>) s2
                    else Some (None, req, s2))))"

section \<open>Per-item and fan-out harvests\<close>

text \<open>
  A \<^verbatim>\<open>for _, x := range xs\<close> loop whose body may panic. The body receives the
  element by value: the callbacks of \<^verbatim>\<open>HarvestIdentifiers\<close> and \<^verbatim>\<open>HarvestRecords\<close>
  get a pointer to the loop variable, which holds a copy of the element while the
  callback runs.
\<close>

fun for_range :: "('a \<Rightarrow> 's \<Rightarrow> panic option \<times> 's) \<Rightarrow> 'a list \<Rightarrow> 's \<Rightarrow> panic option \<times> 's" where
  "for_range body [] s = (None, s)"
| "for_range body (x # xs) s =
     (case body x s of
        (Some p, s') \<Rightarrow> (Some p, s')
      | (None, s') \<Rightarrow> for_range body xs s')"

definition HarvestIdentifiers ::
  "(string \<Rightarrow> 's \<Rightarrow> http_outcome \<times> 's) \<Rightarrow> (Header \<Rightarrow> 's \<Rightarrow> panic option \<times> 's)
     \<Rightarrow> Request \<Rightarrow> 's \<Rightarrow> (panic option \<times> Request \<times> 's) option" where
  "HarvestIdentifiers http_Get callback req s =
     Harvest http_Get
       (\<lambda>resp s. case resp of
                    None \<Rightarrow> (Some NilDereference, s)
                  | Some r \<Rightarrow>
                      (let headers = Headers (ListIdentifiers r)
                       in for_range callback headers s))
       (req\<lparr>Request.Verb := ''ListIdentifiers''\<rparr>) s"

definition HarvestRecords ::
  "(string \<Rightarrow> 's \<Rightarrow> http_outcome \<times> 's) \<Rightarrow> (Record \<Rightarrow> 's \<Rightarrow> panic option \<times> 's)
     \<Rightarrow> Request \<Rightarrow> 's \<Rightarrow> (panic option \<times> Request \<times> 's) option" where
  "HarvestRecords http_Get callback req s =
     Harvest http_Get
       (\<lambda>resp s. case resp of
                    None \<Rightarrow> (Some NilDereference, s)
                  | Some r \<Rightarrow>
                      (let records = Records (ListRecords r)
                       in for_range callback records s))
       (req\<lparr>Request.Verb := ''ListRecords''\<rparr>) s"

text \<open>
  A channel is known by its identity; the slice \<^verbatim>\<open>channels\<close> is a list of
  identities, and \<^verbatim>\<open>channels[i]\<close> outside the slice panics. The send is a parameter
  \<open>send\<close>; the message is the header the sent pointer refers to at the moment of the
  send, or \<open>None\<close> for nil. Whether and when a consumer takes the message is not
  modelled. \<open>distribute\<close> is the first loop of the callback, with its counter \<open>i\<close>.
\<close>

type_synonym chan = nat

fun distribute ::
  "(chan \<Rightarrow> Header option \<Rightarrow> 's \<Rightarrow> panic option \<times> 's) \<Rightarrow> chan list \<Rightarrow> nat \<Rightarrow> Header list
     \<Rightarrow> 's \<Rightarrow> panic option \<times> 's" where
  "distribute send channels i [] s = (None, s)"
| "distribute send channels i (header # headers) s =
     (if i < length channels then
        (case send (channels ! i) (Some header) s of
           (Some p, s') \<Rightarrow> (Some p, s')
         | (None, s') \<Rightarrow>
             distribute send channels (if i + 1 = length channels then 0 else i + 1)
               headers s')
      else (Some IndexOutOfRange, s))"

definition ChannelHarvestIdentifiers ::
  "(string \<Rightarrow> 's \<Rightarrow> http_outcome \<times> 's) \<Rightarrow> (chan \<Rightarrow> Header option \<Rightarrow> 's \<Rightarrow> panic option \<times> 's)
     \<Rightarrow> chan list \<Rightarrow> Request \<Rightarrow> 's \<Rightarrow> (panic option \<times> Request \<times> 's) option" where
  "ChannelHarvestIdentifiers http_Get send channels req s =
     Harvest http_Get
       (\<lambda>resp s. case resp of
                    None \<Rightarrow> (Some NilDereference, s)
                  | Some r \<Rightarrow>
                      (let headers = Headers (ListIdentifiers r)
                       in case distribute send channels 0 headers s of
                            (Some p, s') \<Rightarrow> (Some p, s')
                          | (None, s') \<Rightarrow>
                              (case ResumptionToken resp of
                                 (hasResumptionToken, _) \<Rightarrow>
                                   if \<not> hasResumptionToken
                                   then for_range (\<lambda>channel. send channel None) channels s'
                                   else (None, s'))))
       (req\<lparr>Request.Verb := ''ListIdentifiers''\<rparr>) s"

section \<open>A remote that answers from a script, and callbacks that record\<close>

text \<open>
  To observe a harvest, the world is the list of outcomes the remote will give to the
  next GETs, in order, and the trace of what has happened so far: every GET with its
  target, every callback invocation with its argument, every channel operation. A
  remote with nothing left to answer refuses the connection. The callbacks and the
  send below do nothing but record; none of them panics.
\<close>

datatype event =
    Get string
  | Batch "Response option"
  | GotHeader Header
  | GotRecord Record
  | Send chan "Header option"
  | Close chan

record world =
  answers :: "http_outcome list"
  trace :: "event list"

definition emit :: "event list \<Rightarrow> world \<Rightarrow> world" where
  "emit es w = w\<lparr>trace := trace w @ es\<rparr>"

definition remote_Get :: "string \<Rightarrow> world \<Rightarrow> http_outcome \<times> world" where
  "remote_Get url w =
     (case answers w of
        [] \<Rightarrow> (GetError, emit [Get url] w)
      | a # rest \<Rightarrow> (a, emit [Get url] (w\<lparr>answers := rest\<rparr>)))"

definition on_batch :: "Response option \<Rightarrow> world \<Rightarrow> panic option \<times> world" where
  "on_batch resp w = (None, emit [Batch resp] w)"

definition on_header :: "Header \<Rightarrow> world \<Rightarrow> panic option \<times> world" where
  "on_header h w = (None, emit [GotHeader h] w)"

definition on_record :: "Record \<Rightarrow> world \<Rightarrow> panic option \<times> world" where
  "on_record r w = (None, emit [GotRecord r] w)"

definition chan_send :: "chan \<Rightarrow> Header option \<Rightarrow> world \<Rightarrow> panic option \<times> world" where
  "chan_send c m w = (None, emit [Send c m] w)"

text \<open>What a trace shows: the targets requested, and what each callback received.\<close>

fun urls :: "event list \<Rightarrow> string list" where
  "urls [] = []"
| "urls (Get u # es) = u # urls es"
| "urls (e # es) = urls es"

fun batches :: "event list \<Rightarrow> Response option list" where
  "batches [] = []"
| "batches (Batch r # es) = r # batches es"
| "batches (e # es) = batches es"

fun headers_seen :: "event list \<Rightarrow> Header list" where
  "headers_seen [] = []"
| "headers_seen (GotHeader h # es) = h # headers_seen es"
| "headers_seen (e # es) = headers_seen es"

fun records_seen :: "event list \<Rightarrow> Record list" where
  "records_seen [] = []"
| "records_seen (GotRecord r # es) = r # records_seen es"
| "records_seen (e # es) = records_seen es"

text \<open>
  The sends of a trace; then the channels that received a header, the channels that
  received nil, and the channels that were closed, each in the order of the trace.
\<close>

fun sends :: "event list \<Rightarrow> event list" where
  "sends [] = []"
| "sends (Send c m # es) = Send c m # sends es"
| "sends (e # es) = sends es"

fun destinations :: "event list \<Rightarrow> chan list" where
  "destinations [] = []"
| "destinations (Send c (Some h) # es) = c # destinations es"
| "destinations (e # es) = destinations es"

fun sentinel_targets :: "event list \<Rightarrow> chan list" where
  "sentinel_targets [] = []"
| "sentinel_targets (Send c None # es) = c # sentinel_targets es"
| "sentinel_targets (e # es) = sentinel_targets es"

fun closed :: "event list \<Rightarrow> chan list" where
  "closed [] = []"
| "closed (Close c # es) = c # closed es"
| "closed (e # es) = closed es"

definition outcome_trace :: "(panic option \<times> Request \<times> world) option \<Rightarrow> event list" where
  "outcome_trace res = (case res of None \<Rightarrow> [] | Some (p, req, w) \<Rightarrow> trace w)"

text \<open>
  A page is a decoded response with the status code it came with. \<open>more r\<close> says that
  the detector finds a token in \<open>r\<close>, \<open>token r\<close> is that token. \<open>continuation\<close> is the
  request as lines 183 to 186 of \<^verbatim>\<open>Harvest\<close> leave it, and \<open>issued req rs\<close> are the
  requests that follow each other when \<open>req\<close> is answered by the responses \<open>rs\<close>,
  each with a token: \<open>req\<close> itself, then one continuation per response.
\<close>

definition page :: "int \<times> Response \<Rightarrow> http_outcome" where
  "page p = Decoded (fst p) (snd p)"

definition more :: "Response \<Rightarrow> bool" where
  "more r = fst (ResumptionToken (Some r))"

definition token :: "Response \<Rightarrow> string" where
  "token r = snd (ResumptionToken (Some r))"

definition continuation :: "Request \<Rightarrow> string \<Rightarrow> Request" where
  "continuation req tok =
     req\<lparr>Request.Set := '''', Request.MetadataPrefix := '''', From := '''',
         Request.ResumptionToken := tok\<rparr>"

definition issued :: "Request \<Rightarrow> Response list \<Rightarrow> Request list" where
  "issued req rs = req # map (\<lambda>r. continuation req (token r)) rs"

text \<open>One GET and what the callback records for its response.\<close>

definition exchange :: "(Response \<Rightarrow> event list) \<Rightarrow> Request \<times> Response \<Rightarrow> event list" where
  "exchange out x = Get (String (fst x)) # out (snd x)"

text \<open>
  The sends of one page over the channels \<open>cs\<close>: item \<open>j\<close> of the page, counted from 0
  within the page, goes to the channel at position \<open>j mod length cs\<close>. Then the nil
  sent to each position of the slice.
\<close>

definition deliveries :: "chan list \<Rightarrow> Header list \<Rightarrow> event list" where
  "deliveries cs hs = map (\<lambda>j. Send (cs ! (j mod length cs)) (Some (hs ! j))) [0..<length hs]"

definition sentinels :: "chan list \<Rightarrow> event list" where
  "sentinels cs = map (\<lambda>c. Send c None) cs"

text \<open>The panic that an outcome of a GET leads to in \<^verbatim>\<open>Perform\<close>, if any.\<close>

fun failure :: "http_outcome \<Rightarrow> panic option" where
  "failure GetError = Some GetPanic"
| "failure (ReadAllError status) = Some ReadAllPanic"
| "failure (UnmarshalError status) = Some UnmarshalPanic"
| "failure (Decoded status r) = None"

text \<open>The zero values of the structs, and the values used in the examples.\<close>

definition zero_Header :: Header where
  "zero_Header = \<lparr>Status = '''', Header.Identifier = '''', DateStamp = '''', Header.SetSpec = []\<rparr>"

definition zero_ListIdentifiers :: ListIdentifiers where
  "zero_ListIdentifiers = \<lparr>Headers = [], ListIdentifiers.ResumptionToken = ''''\<rparr>"

definition zero_ListRecords :: ListRecords where
  "zero_ListRecords = \<lparr>Records = [], ListRecords.ResumptionToken = ''''\<rparr>"

definition zero_Record :: Record where
  "zero_Record = \<lparr>Header = zero_Header, Metadata = \<lparr>Metadata.Body = []\<rparr>,
                  About = \<lparr>About.Body = []\<rparr>\<rparr>"

definition zero_Identify :: Identify where
  "zero_Identify =
     \<lparr>RepositoryName = '''', BaseURL = '''', ProtocolVersion = '''', AdminEmail = [],
      EarliestDatestamp = '''', DeletedRecord = '''', Granularity = '''',
      Identify.Description = []\<rparr>"

definition zero_Response :: Response where
  "zero_Response =
     \<lparr>ResponseDate = '''',
      Request = \<lparr>RequestNode.Verb = '''', RequestNode.Set = '''',
                 RequestNode.MetadataPrefix = ''''\<rparr>,
      Error = \<lparr>Code = '''', Message = ''''\<rparr>,
      Identify = zero_Identify,
      ListMetadataFormats = \<lparr>MetadataFormat = []\<rparr>,
      ListSets = \<lparr>ListSets.Set = []\<rparr>,
      GetRecord = \<lparr>Record = zero_Record\<rparr>,
      ListIdentifiers = zero_ListIdentifiers,
      ListRecords = zero_ListRecords\<rparr>"

definition header_named :: "string \<Rightarrow> Header" where
  "header_named n = zero_Header\<lparr>Header.Identifier := n\<rparr>"

definition identifiers_page :: "string list \<Rightarrow> string \<Rightarrow> Response" where
  "identifiers_page ns tok =
     zero_Response\<lparr>ListIdentifiers :=
       \<lparr>Headers = map header_named ns, ListIdentifiers.ResumptionToken = tok\<rparr>\<rparr>"

definition records_page :: "string list \<Rightarrow> string \<Rightarrow> Response" where
  "records_page ns tok =
     zero_Response\<lparr>ListRecords :=
       \<lparr>Records = map (\<lambda>n. zero_Record\<lparr>Header := header_named n\<rparr>) ns,
        ListRecords.ResumptionToken = tok\<rparr>\<rparr>"

definition error_page :: "string \<Rightarrow> string \<Rightarrow> Response" where
  "error_page c m = zero_Response\<lparr>Error := \<lparr>Code = c, Message = m\<rparr>\<rparr>"

definition full_request :: Request where
  "full_request =
     \<lparr>BaseUrl = ''http://example.org/oai'', Request.Set = ''a:b'',
      Request.MetadataPrefix = ''oai_dc'', Request.Verb = ''ListRecords'',
      Request.Identifier = ''oai:x/1'', Request.ResumptionToken = ''p q&r=s'',
      From = ''2012-09-06T14:00:00Z'', Until = ''2013-01-01''\<rparr>"

definition bare_request :: Request where
  "bare_request =
     \<lparr>BaseUrl = ''http://example.org/oai'', Request.Set = '''',
      Request.MetadataPrefix = '''', Request.Verb = '''', Request.Identifier = '''',
      Request.ResumptionToken = '''', From = '''', Until = ''''\<rparr>"

definition kb_request :: Request where
  "kb_request =
     \<lparr>BaseUrl = ''http://services.kb.nl/mdo/oai'', Request.Set = ''DTS'',
      Request.MetadataPrefix = ''dcx'', Request.Verb = '''', Request.Identifier = '''',
      Request.ResumptionToken = '''', From = ''2012-09-06T014:00:00.000Z'', Until = ''''\<rparr>"

section \<open>One step of a harvest\<close>

text \<open>
  What \<^verbatim>\<open>Harvest\<close> does with one response, for any transport and any callback: it
  goes on with the continuation request, it returns, or it ends with the panic of
  \<^verbatim>\<open>Perform\<close>.
\<close>

lemma continuation_twice: "continuation (continuation req a) b = continuation req b"
  by (simp add: continuation_def)

lemma Harvest_more:
  assumes "http_Get (String req) s = (Decoded st r, sa)"
    and "cb (Some r) sa = (None, sb)"
    and "more r"
  shows "Harvest http_Get cb req s = Harvest http_Get cb (continuation req (token r)) sb"
  using assms
  by (subst Harvest.simps)
     (simp add: Perform_def more_def token_def continuation_def case_prod_unfold)

lemma Harvest_done:
  assumes "http_Get (String req) s = (Decoded st r, sa)"
    and "cb (Some r) sa = (None, sb)"
    and "\<not> more r"
  shows "Harvest http_Get cb req s = Some (None, req, sb)"
  using assms
  by (subst Harvest.simps) (simp add: Perform_def more_def case_prod_unfold)

lemma Harvest_failure:
  assumes "http_Get (String req) s = (a, sa)"
    and "failure a = Some p"
  shows "Harvest http_Get cb req s = Some (Some p, req, sa)"
  using assms
  by (subst Harvest.simps) (cases a; simp add: Perform_def)

section \<open>The scripted remote and the recording callbacks\<close>

lemma emit_Nil: "emit [] w = w"
  by (simp add: emit_def)

lemma emit_emit: "emit es (emit ds w) = emit (ds @ es) w"
  by (simp add: emit_def)

lemma emit_world: "emit es \<lparr>answers = as, trace = tr\<rparr> = \<lparr>answers = as, trace = tr @ es\<rparr>"
  by (simp add: emit_def)

lemma remote_Get_Cons:
  "remote_Get url \<lparr>answers = a # rest, trace = tr\<rparr> =
     (a, \<lparr>answers = rest, trace = tr @ [Get url]\<rparr>)"
  by (simp add: remote_Get_def emit_def)

lemma remote_Get_Nil:
  "remote_Get url \<lparr>answers = [], trace = tr\<rparr> =
     (GetError, \<lparr>answers = [], trace = tr @ [Get url]\<rparr>)"
  by (simp add: remote_Get_def emit_def)

lemma on_batch_emits: "on_batch (Some r) w = (None, emit [Batch (Some r)] w)"
  by (simp add: on_batch_def)

section \<open>Harvests against the scripted remote\<close>

text \<open>
  A callback that records \<open>out r\<close> for the response \<open>r\<close> and never panics. While the
  pages carry a token the harvest goes on; it returns on the first page without one,
  and ends with a panic on the first failed GET. Against the scripted remote every
  harvest returns.
\<close>

lemma Harvest_pages:
  assumes cb: "\<And>r w. cb (Some r) w = (None, emit (out r) w)"
    and more: "\<forall>p\<in>set pages. more (snd p)"
  shows "Harvest remote_Get cb req \<lparr>answers = map page pages @ rest, trace = tr\<rparr> =
         Harvest remote_Get cb (last (issued req (map snd pages)))
           \<lparr>answers = rest,
            trace = tr @ concat (map (exchange out)
                      (zip (issued req (map snd pages)) (map snd pages)))\<rparr>"
  using more
proof (induction pages arbitrary: req tr)
  case Nil
  show ?case by (simp add: issued_def)
next
  case (Cons p pages)
  obtain st r where p: "p = (st, r)" by (cases p)
  have r: "more r" using Cons.prems p by simp
  have rest: "\<forall>p\<in>set pages. more (snd p)" using Cons.prems by simp
  have step: "Harvest remote_Get cb req \<lparr>answers = map page (p # pages) @ rest, trace = tr\<rparr> =
        Harvest remote_Get cb (continuation req (token r))
          \<lparr>answers = map page pages @ rest, trace = tr @ exchange out (req, r)\<rparr>"
    by (rule Harvest_more [where st = st and r = r
          and sa = "\<lparr>answers = map page pages @ rest, trace = tr @ [Get (String req)]\<rparr>"])
       (simp_all add: p page_def cb r exchange_def remote_Get_Cons emit_world)
  have l: "last (issued (continuation req (token r)) (map snd pages)) =
           last (issued req (map snd (p # pages)))"
    by (simp add: issued_def p continuation_twice)
  have z: "zip (issued req (map snd (p # pages))) (map snd (p # pages)) =
           (req, r) # zip (issued (continuation req (token r)) (map snd pages)) (map snd pages)"
    by (cases pages) (simp_all add: issued_def p continuation_twice)
  show ?case
    unfolding step Cons.IH [OF rest] l z by simp
qed

lemma Harvest_complete:
  assumes cb: "\<And>r w. cb (Some r) w = (None, emit (out r) w)"
    and more: "\<forall>p\<in>set pages. more (snd p)"
    and final: "\<not> more r"
  shows "Harvest remote_Get cb req
           \<lparr>answers = map page pages @ page (st, r) # rest, trace = tr\<rparr> =
         Some (None, last (issued req (map snd pages)),
           \<lparr>answers = rest,
            trace = tr @ concat (map (exchange out)
                           (zip (issued req (map snd pages)) (map snd pages)))
                       @ exchange out (last (issued req (map snd pages)), r)\<rparr>)"
proof -
  let ?q = "last (issued req (map snd pages))"
  let ?tr = "tr @ concat (map (exchange out) (zip (issued req (map snd pages)) (map snd pages)))"
  have "Harvest remote_Get cb ?q \<lparr>answers = page (st, r) # rest, trace = ?tr\<rparr> =
        Some (None, ?q, \<lparr>answers = rest, trace = ?tr @ exchange out (?q, r)\<rparr>)"
    by (rule Harvest_done [where st = st and r = r
          and sa = "\<lparr>answers = rest, trace = ?tr @ [Get (String ?q)]\<rparr>"])
       (simp_all add: page_def cb final exchange_def remote_Get_Cons emit_world)
  then show ?thesis
    by (simp add: Harvest_pages [where out = out, OF cb more])
qed

lemma Harvest_aborted:
  assumes cb: "\<And>r w. cb (Some r) w = (None, emit (out r) w)"
    and more: "\<forall>p\<in>set pages. more (snd p)"
    and bad: "failure a = Some p"
  shows "Harvest remote_Get cb req \<lparr>answers = map page pages @ a # rest, trace = tr\<rparr> =
         Some (Some p, last (issued req (map snd pages)),
           \<lparr>answers = rest,
            trace = tr @ concat (map (exchange out)
                           (zip (issued req (map snd pages)) (map snd pages)))
                       @ [Get (String (last (issued req (map snd pages))))]\<rparr>)"
proof -
  let ?q = "last (issued req (map snd pages))"
  let ?tr = "tr @ concat (map (exchange out) (zip (issued req (map snd pages)) (map snd pages)))"
  have "Harvest remote_Get cb ?q \<lparr>answers = a # rest, trace = ?tr\<rparr> =
        Some (Some p, ?q, \<lparr>answers = rest, trace = ?tr @ [Get (String ?q)]\<rparr>)"
    by (rule Harvest_failure [OF _ bad]) (simp add: remote_Get_Cons)
  then show ?thesis
    by (simp add: Harvest_pages [where out = out, OF cb more])
qed

lemma Harvest_remote_returns:
  assumes cb: "\<And>r w. cb (Some r) w = (None, emit (out r) w)"
  shows "\<exists>p q w' tl. Harvest remote_Get cb req \<lparr>answers = as, trace = tr\<rparr> = Some (p, q, w')
                      \<and> trace w' = tr @ Get (String req) # tl"
proof (induction as arbitrary: req tr)
  case Nil
  have "Harvest remote_Get cb req \<lparr>answers = [], trace = tr\<rparr> =
        Some (Some GetPanic, req, \<lparr>answers = [], trace = tr @ [Get (String req)]\<rparr>)"
    by (rule Harvest_failure [where a = GetError]) (simp_all add: remote_Get_Nil)
  then show ?case by simp
next
  case (Cons a as)
  show ?case
  proof (cases "failure a")
    case (Some p)
    have "Harvest remote_Get cb req \<lparr>answers = a # as, trace = tr\<rparr> =
          Some (Some p, req, \<lparr>answers = as, trace = tr @ [Get (String req)]\<rparr>)"
      by (rule Harvest_failure [OF _ Some]) (simp add: remote_Get_Cons)
    then show ?thesis by simp
  next
    case None
    then obtain st r where a: "a = Decoded st r"
      by (cases a) simp_all
    have get: "remote_Get (String req) \<lparr>answers = a # as, trace = tr\<rparr> =
               (Decoded st r, \<lparr>answers = as, trace = tr @ [Get (String req)]\<rparr>)"
      by (simp add: remote_Get_Cons a)
    have call: "cb (Some r) \<lparr>answers = as, trace = tr @ [Get (String req)]\<rparr> =
                (None, \<lparr>answers = as, trace = tr @ Get (String req) # out r\<rparr>)"
      by (simp add: cb emit_world)
    show ?thesis
    proof (cases "more r")
      case True
      have "Harvest remote_Get cb req \<lparr>answers = a # as, trace = tr\<rparr> =
            Harvest remote_Get cb (continuation req (token r))
              \<lparr>answers = as, trace = tr @ Get (String req) # out r\<rparr>"
        by (rule Harvest_more [where http_Get = remote_Get and cb = cb, OF get call True])
      moreover obtain p q w' tl where
        "Harvest remote_Get cb (continuation req (token r))
           \<lparr>answers = as, trace = tr @ Get (String req) # out r\<rparr> = Some (p, q, w')"
        "trace w' = (tr @ Get (String req) # out r) @ Get (String (continuation req (token r))) # tl"
        using Cons.IH by blast
      ultimately show ?thesis by simp
    next
      case False
      have "Harvest remote_Get cb req \<lparr>answers = a # as, trace = tr\<rparr> =
            Some (None, req, \<lparr>answers = as, trace = tr @ Get (String req) # out r\<rparr>)"
        by (rule Harvest_done [where http_Get = remote_Get and cb = cb, OF get call False])
      then show ?thesis by simp
    qed
  qed
qed

section \<open>The loops of the per-item and fan-out callbacks\<close>

lemma for_range_on_header: "for_range on_header hs w = (None, emit (map GotHeader hs) w)"
proof (induction hs arbitrary: w)
  case Nil
  show ?case by (simp add: emit_Nil)
next
  case (Cons h hs)
  have "for_range on_header (h # hs) w = for_range on_header hs (emit [GotHeader h] w)"
    by (simp add: on_header_def)
  then show ?case
    by (simp only: Cons.IH emit_emit) simp
qed

lemma for_range_on_record: "for_range on_record rs w = (None, emit (map GotRecord rs) w)"
proof (induction rs arbitrary: w)
  case Nil
  show ?case by (simp add: emit_Nil)
next
  case (Cons r rs)
  have "for_range on_record (r # rs) w = for_range on_record rs (emit [GotRecord r] w)"
    by (simp add: on_record_def)
  then show ?case
    by (simp only: Cons.IH emit_emit) simp
qed

lemma for_range_sentinels:
  "for_range (\<lambda>channel. chan_send channel None) cs w = (None, emit (sentinels cs) w)"
proof (induction cs arbitrary: w)
  case Nil
  show ?case by (simp add: emit_Nil sentinels_def)
next
  case (Cons c cs)
  show ?case using Cons.IH by (simp add: chan_send_def sentinels_def emit_emit)
qed

lemma next_index:
  "i < n \<Longrightarrow> (if i + 1 = n then 0 else i + 1) = Suc i mod n"
  by (auto simp: mod_Suc)

lemma distribute_chan_send:
  "i < length cs \<Longrightarrow>
   distribute chan_send cs i hs w =
     (None, emit (map (\<lambda>j. Send (cs ! ((i + j) mod length cs)) (Some (hs ! j))) [0..<length hs]) w)"
proof (induction hs arbitrary: i w)
  case Nil
  show ?case by (simp add: emit_Nil)
next
  case (Cons h hs)
  let ?i' = "if i + 1 = length cs then 0 else i + 1"
  have i': "?i' = Suc i mod length cs"
    using Cons.prems by (rule next_index)
  have "0 < length cs"
    using Cons.prems by (cases cs) simp_all
  then have lt: "?i' < length cs"
    unfolding i' by (rule mod_less_divisor)
  have shift: "\<And>j. (Suc i mod length cs + j) mod length cs = (i + Suc j) mod length cs"
    by (simp add: mod_add_left_eq)
  have upt: "[0..<length (h # hs)] = 0 # map Suc [0..<length hs]"
    by (simp add: upt_conv_Cons map_Suc_upt del: upt_Suc)
  have "distribute chan_send cs i (h # hs) w =
        distribute chan_send cs ?i' hs (emit [Send (cs ! i) (Some h)] w)"
    using Cons.prems by (simp add: chan_send_def)
  also have "\<dots> = (None, emit (map (\<lambda>j. Send (cs ! ((?i' + j) mod length cs)) (Some (hs ! j)))
                              [0..<length hs]) (emit [Send (cs ! i) (Some h)] w))"
    by (rule Cons.IH [OF lt])
  finally show ?case
    using Cons.prems
    by (simp only: upt i' shift emit_emit) (simp add: o_def)
qed

lemma distribute_deliveries:
  "cs \<noteq> [] \<Longrightarrow> distribute chan_send cs 0 hs w = (None, emit (deliveries cs hs) w)"
  using distribute_chan_send [of 0 cs hs w] by (simp add: deliveries_def)

lemma fan_out_callback:
  assumes "cs \<noteq> []"
  shows "(case Some r of
            None \<Rightarrow> (Some NilDereference, w)
          | Some r \<Rightarrow>
              (let headers = Headers (ListIdentifiers r)
               in case distribute chan_send cs 0 headers w of
                    (Some p, s') \<Rightarrow> (Some p, s')
                  | (None, s') \<Rightarrow>
                      (case ResumptionToken (Some r) of
                         (hasResumptionToken, _) \<Rightarrow>
                           if \<not> hasResumptionToken
                           then for_range (\<lambda>channel. chan_send channel None) cs s'
                           else (None, s')))) =
         (None, emit (deliveries cs (Headers (ListIdentifiers r))
                      @ (if more r then [] else sentinels cs)) w)"
  by (simp add: distribute_deliveries [OF assms] for_range_sentinels more_def emit_emit
                case_prod_unfold)

lemma exchange_cong:
  assumes "\<And>r. r \<in> set rs \<Longrightarrow> out r = out' r"
  shows "map (exchange out) (zip qs rs) = map (exchange out') (zip qs rs)"
proof (rule map_cong [OF refl])
  fix x assume "x \<in> set (zip qs rs)"
  then have "snd x \<in> set rs"
    by (metis prod.collapse set_zip_rightD)
  then show "exchange out x = exchange out' x"
    by (simp add: exchange_def assms)
qed

lemma fan_out_complete:
  assumes cs: "cs \<noteq> []"
    and more: "\<forall>p\<in>set pages. more (snd p)"
    and final: "\<not> more r"
  shows "ChannelHarvestIdentifiers remote_Get chan_send cs req
           \<lparr>answers = map page pages @ page (st, r) # rest, trace = tr\<rparr> =
         Some (None, last (issued (req\<lparr>Request.Verb := ''ListIdentifiers''\<rparr>) (map snd pages)),
           \<lparr>answers = rest,
            trace = tr @ concat (map (exchange (\<lambda>r. deliveries cs (Headers (ListIdentifiers r))))
                           (zip (issued (req\<lparr>Request.Verb := ''ListIdentifiers''\<rparr>) (map snd pages))
                                (map snd pages)))
                       @ exchange (\<lambda>r. deliveries cs (Headers (ListIdentifiers r)))
                           (last (issued (req\<lparr>Request.Verb := ''ListIdentifiers''\<rparr>) (map snd pages)), r)
                       @ sentinels cs\<rparr>)"
proof -
  let ?out = "\<lambda>r. deliveries cs (Headers (ListIdentifiers r)) @ (if more r then [] else sentinels cs)"
  let ?out' = "\<lambda>r. deliveries cs (Headers (ListIdentifiers r))"
  have same: "map (exchange ?out) (zip qs (map snd pages)) =
              map (exchange ?out') (zip qs (map snd pages))" for qs
    by (rule exchange_cong) (use more in auto)
  have fin: "exchange ?out (q, r) = exchange ?out' (q, r) @ sentinels cs" for q
    using final by (simp add: exchange_def)
  let ?cb = "\<lambda>resp s. case resp of
                 None \<Rightarrow> (Some NilDereference, s)
               | Some r \<Rightarrow>
                   (let headers = Headers (ListIdentifiers r)
                    in case distribute chan_send cs 0 headers s of
                         (Some p, s') \<Rightarrow> (Some p, s')
                       | (None, s') \<Rightarrow>
                           (case ResumptionToken resp of
                              (hasResumptionToken, _) \<Rightarrow>
                                if \<not> hasResumptionToken
                                then for_range (\<lambda>channel. chan_send channel None) cs s'
                                else (None, s')))"
  have cb: "?cb (Some r) w = (None, emit (?out r) w)" for r w
    using fan_out_callback [OF cs, where r = r and w = w] by simp
  show ?thesis
    unfolding ChannelHarvestIdentifiers_def
    by (subst Harvest_complete [where cb = ?cb and out = ?out, OF cb more final])
       (simp add: same fin)
qed

section \<open>What the traces show\<close>

lemma urls_append: "urls (xs @ ys) = urls xs @ urls ys"
  by (induction xs rule: urls.induct) simp_all

lemma batches_append: "batches (xs @ ys) = batches xs @ batches ys"
  by (induction xs rule: batches.induct) simp_all

lemma headers_seen_append: "headers_seen (xs @ ys) = headers_seen xs @ headers_seen ys"
  by (induction xs rule: headers_seen.induct) simp_all

lemma records_seen_append: "records_seen (xs @ ys) = records_seen xs @ records_seen ys"
  by (induction xs rule: records_seen.induct) simp_all

lemma sends_append: "sends (xs @ ys) = sends xs @ sends ys"
  by (induction xs rule: sends.induct) simp_all

lemma destinations_append: "destinations (xs @ ys) = destinations xs @ destinations ys"
  by (induction xs rule: destinations.induct) simp_all

lemma sentinel_targets_append:
  "sentinel_targets (xs @ ys) = sentinel_targets xs @ sentinel_targets ys"
  by (induction xs rule: sentinel_targets.induct) simp_all

lemma closed_append: "closed (xs @ ys) = closed xs @ closed ys"
  by (induction xs rule: closed.induct) simp_all

lemma zip_issued_fst: "map fst (zip (issued req rs) rs) = butlast (issued req rs)"
proof -
  have "map fst (zip (issued req rs) rs) = take (length rs) (issued req rs)"
    by (simp add: map_fst_zip_take issued_def)
  also have "\<dots> = butlast (issued req rs)"
    by (simp add: butlast_conv_take issued_def)
  finally show ?thesis .
qed

lemma zip_issued_snd: "map snd (zip (issued req rs) rs) = rs"
  by (simp add: map_snd_zip_take issued_def)

lemma zip_issued_snd_map: "map (\<lambda>x. f (snd x)) (zip (issued req rs) rs) = map f rs"
proof -
  have "map (\<lambda>x. f (snd x)) (zip (issued req rs) rs) =
        map f (map snd (zip (issued req rs) rs))"
    by (simp add: o_def)
  then show ?thesis
    by (simp only: zip_issued_snd)
qed

lemma zip_issued_snd_concat:
  "concat (map (\<lambda>x. f (snd x)) (zip (issued req rs) rs)) = concat (map f rs)"
  by (simp only: zip_issued_snd_map)

lemma urls_exchanges:
  assumes "\<And>r. urls (out r) = []"
  shows "urls (concat (map (exchange out) xs)) = map (\<lambda>x. String (fst x)) xs"
  by (induction xs) (simp_all add: exchange_def urls_append assms)

lemma urls_complete:
  assumes "\<And>r. urls (out r) = []"
  shows "urls (concat (map (exchange out) (zip (issued req rs) rs))
               @ exchange out (last (issued req rs), r)) = map String (issued req rs)"
proof -
  have ne: "issued req rs \<noteq> []"
    by (simp add: issued_def)
  have "map String (issued req rs) =
        map String (butlast (issued req rs) @ [last (issued req rs)])"
    by (simp only: append_butlast_last_id [OF ne])
  moreover have "map (\<lambda>x. String (fst x)) (zip (issued req rs) rs) =
        map String (butlast (issued req rs))"
    by (simp add: zip_issued_fst [symmetric] o_def)
  ultimately show ?thesis
    by (simp add: urls_append urls_exchanges [OF assms] exchange_def assms)
qed

lemma batches_exchanges:
  "batches (concat (map (exchange (\<lambda>r. [Batch (Some r)])) xs)) = map (\<lambda>x. Some (snd x)) xs"
  by (induction xs) (simp_all add: exchange_def)

lemma exchange_batch: "exchange (\<lambda>r. [Batch (Some r)]) = (\<lambda>x. [Get (String (fst x)), Batch (Some (snd x))])"
  by (rule ext) (simp add: exchange_def)

lemma exchange_unfold: "exchange out = (\<lambda>x. Get (String (fst x)) # out (snd x))"
  by (rule ext) (simp add: exchange_def)

lemma seen_items:
  "headers_seen (map GotHeader hs) = hs"
  "records_seen (map GotRecord rs) = rs"
  by (induction hs, simp_all) (induction rs, simp_all)

lemma seen_exchanges:
  "headers_seen (concat (map (exchange (\<lambda>r. map GotHeader (f r))) xs)) =
     concat (map (\<lambda>x. f (snd x)) xs)"
  "records_seen (concat (map (exchange (\<lambda>r. map GotRecord (g r))) xs)) =
     concat (map (\<lambda>x. g (snd x)) xs)"
  by (induction xs)
     (simp_all add: exchange_def headers_seen_append records_seen_append seen_items)

lemma items_shown:
  "sends (map (\<lambda>j. Send (f j) (Some (g j))) js) = map (\<lambda>j. Send (f j) (Some (g j))) js"
  "destinations (map (\<lambda>j. Send (f j) (Some (g j))) js) = map f js"
  "sentinel_targets (map (\<lambda>j. Send (f j) (Some (g j))) js) = []"
  "closed (map (\<lambda>j. Send (f j) (Some (g j))) js) = []"
  by (induction js) simp_all

lemma deliveries_shown:
  "sends (deliveries cs hs) = deliveries cs hs"
  "destinations (deliveries cs hs) = map (\<lambda>j. cs ! (j mod length cs)) [0..<length hs]"
  "sentinel_targets (deliveries cs hs) = []"
  "closed (deliveries cs hs) = []"
  by (simp_all add: deliveries_def items_shown)

lemma sentinels_shown:
  "sends (sentinels cs) = sentinels cs"
  "destinations (sentinels cs) = []"
  "sentinel_targets (sentinels cs) = cs"
  "closed (sentinels cs) = []"
  by (induction cs) (simp_all add: sentinels_def)

lemma fan_out_exchanges_shown:
  fixes cs :: "chan list"
  defines "out \<equiv> \<lambda>r. deliveries cs (Headers (ListIdentifiers r))"
  shows "sends (concat (map (exchange out) xs)) = concat (map (\<lambda>x. out (snd x)) xs)"
    and "destinations (concat (map (exchange out) xs)) =
           concat (map (\<lambda>x. map (\<lambda>j. cs ! (j mod length cs))
                                [0..<length (Headers (ListIdentifiers (snd x)))]) xs)"
    and "sentinel_targets (concat (map (exchange out) xs)) = []"
    and "closed (concat (map (exchange out) xs)) = []"
  by (induction xs)
     (simp_all add: out_def exchange_def sends_append destinations_append
                    sentinel_targets_append closed_append deliveries_shown)

lemma distinct_count_list: "distinct xs \<Longrightarrow> x \<in> set xs \<Longrightarrow> count_list xs x = 1"
  by (induction xs) (auto simp: count_list_0_iff)

section \<open>The query of a request\<close>

lemma query_spec_query: "query req = spec_query req"
  by (simp add: query_def spec_query_def spec_parameters_def spec_pair_def add_def Let_def)

lemma strings_Join_separated:
  "strings_Join ps sep =
     (case ps of [] \<Rightarrow> [] | p # later \<Rightarrow> p @ concat (map (\<lambda>q. sep @ q) later))"
  by (induction ps sep rule: strings_Join.induct) simp_all

lemma strings_Join_spec_joined: "strings_Join ps ''&'' = spec_joined ps"
proof -
  have amp: "(\<lambda>q. ''&'' @ q) = (\<lambda>q. CHR ''&'' # q)"
    by (rule ext) simp
  show ?thesis
    by (cases ps) (simp_all add: strings_Join_separated spec_joined_def amp)
qed

lemma spec_query_continuation:
  "spec_query (continuation req tok) =
     map spec_pair (filter (\<lambda>p. snd p \<noteq> '''')
       [(''verb'', Request.Verb req), (''resumptionToken'', tok),
        (''identifier'', Request.Identifier req), (''until'', Until req)])"
  by (simp add: spec_query_def spec_parameters_def continuation_def)

section \<open>The example pages\<close>

lemma identifiers_page_token:
  "more (identifiers_page ns tok) = (tok \<noteq> [])" "token (identifiers_page ns tok) = tok"
  by (simp_all add: more_def token_def ResumptionToken_def identifiers_page_def
                    zero_Response_def zero_ListRecords_def)

lemma records_page_token:
  "more (records_page ns tok) = (tok \<noteq> [])" "token (records_page ns tok) = tok"
  by (simp_all add: more_def token_def ResumptionToken_def records_page_def
                    zero_Response_def zero_ListIdentifiers_def)

lemma page_items:
  "Headers (ListIdentifiers (identifiers_page ns tok)) = map header_named ns"
  "Records (ListRecords (identifiers_page ns tok)) = []"
  by (simp_all add: identifiers_page_def zero_Response_def zero_ListRecords_def)

section \<open>The properties of the specification\<close>

text \<open>
  C1. The remote answers with \<open>n\<close> pages, each but the last with a non-empty token
  and the last with none (here: the pages \<open>pages\<close>, then the response \<open>r\<close>). Then
  \<^verbatim>\<open>Harvest\<close> returns without a panic and has performed exactly \<open>n\<close> requests, one per
  page, each followed by one invocation of the batch callback with that page, before
  the next request; the request of call \<open>k + 1\<close> carries as resumption token the
  token of the response to call \<open>k\<close>; and when the first response has no token there
  is exactly one call and one invocation of the callback.
\<close>

theorem Harvest_one_call_per_page:
  assumes "\<forall>p\<in>set pages. more (snd p)"
    and "\<not> more r"
  shows "\<exists>w'. Harvest remote_Get on_batch req
                \<lparr>answers = map page pages @ page (st, r) # rest, trace = []\<rparr>
              = Some (None, last (issued req (map snd pages)), w')
          \<and> answers w' = rest
          \<and> trace w' =
              concat (map (\<lambda>x. [Get (String (fst x)), Batch (Some (snd x))])
                        (zip (issued req (map snd pages)) (map snd pages)))
              @ [Get (String (last (issued req (map snd pages)))), Batch (Some r)]
          \<and> urls (trace w') = map String (issued req (map snd pages))
          \<and> length (urls (trace w')) = length pages + 1
          \<and> batches (trace w') = map Some (map snd pages @ [r])
          \<and> (\<forall>k<length pages.
                urls (trace w') ! Suc k = String (continuation req (token (snd (pages ! k))))
                \<and> Request.ResumptionToken (continuation req (token (snd (pages ! k))))
                    = token (snd (pages ! k)))
          \<and> (pages = [] \<longrightarrow> trace w' = [Get (String req), Batch (Some r)])"
proof -
  let ?rs = "map snd pages"
  let ?out = "\<lambda>r. [Batch (Some r)]"
  let ?T = "concat (map (exchange ?out) (zip (issued req ?rs) ?rs))
            @ exchange ?out (last (issued req ?rs), r)"
  have run: "Harvest remote_Get on_batch req
               \<lparr>answers = map page pages @ page (st, r) # rest, trace = []\<rparr>
             = Some (None, last (issued req ?rs), \<lparr>answers = rest, trace = ?T\<rparr>)"
    using Harvest_complete [where cb = on_batch and out = ?out and tr = "[]", OF on_batch_emits assms]
    by simp
  have T: "?T = concat (map (\<lambda>x. [Get (String (fst x)), Batch (Some (snd x))])
                        (zip (issued req ?rs) ?rs))
              @ [Get (String (last (issued req ?rs))), Batch (Some r)]"
    by (simp add: exchange_batch)
  have u: "urls ?T = map String (issued req ?rs)"
    by (rule urls_complete) simp
  have len: "length (urls ?T) = length pages + 1"
    by (simp only: u) (simp add: issued_def)
  have b: "batches ?T = map Some (?rs @ [r])"
    by (simp add: batches_append batches_exchanges zip_issued_snd_map exchange_def)
  have k: "\<forall>k<length pages.
             urls ?T ! Suc k = String (continuation req (token (snd (pages ! k))))
             \<and> Request.ResumptionToken (continuation req (token (snd (pages ! k))))
                 = token (snd (pages ! k))"
    by (simp only: u) (simp add: issued_def continuation_def)
  have one: "pages = [] \<longrightarrow> ?T = [Get (String req), Batch (Some r)]"
    by (simp add: issued_def exchange_def)
  show ?thesis
    using run T u len b k one by (intro exI [of _ "\<lparr>answers = rest, trace = ?T\<rparr>"]) simp
qed

text \<open>C1 on three pages with the tokens \<open>1\<close>, \<open>2\<close> and none.\<close>

theorem Harvest_one_call_per_page_witness:
  "\<exists>w'. Harvest remote_Get on_batch (kb_request\<lparr>Request.Verb := ''ListIdentifiers''\<rparr>)
          \<lparr>answers = [page (200, identifiers_page [''a'', ''b''] ''1''),
                      page (200, identifiers_page [''c''] ''2''),
                      page (200, identifiers_page [''d''] '''')],
           trace = []\<rparr>
        = Some (None, continuation (kb_request\<lparr>Request.Verb := ''ListIdentifiers''\<rparr>) ''2'', w')
      \<and> urls (trace w') =
          [''http://services.kb.nl/mdo/oai?verb=ListIdentifiers&set=DTS&metadataPrefix=dcx&from=2012-09-06T014:00:00.000Z'',
           ''http://services.kb.nl/mdo/oai?verb=ListIdentifiers&resumptionToken=1'',
           ''http://services.kb.nl/mdo/oai?verb=ListIdentifiers&resumptionToken=2'']
      \<and> length (batches (trace w')) = 3"
proof -
  have h1: "\<forall>p\<in>set [(200, identifiers_page [''a'', ''b''] ''1''),
                     (200::int, identifiers_page [''c''] ''2'')]. more (snd p)"
    by (simp add: identifiers_page_token)
  have h2: "\<not> more (identifiers_page [''d''] '''')"
    by (simp add: identifiers_page_token)
  show ?thesis
    using Harvest_one_call_per_page [OF h1 h2,
            of "kb_request\<lparr>Request.Verb := ''ListIdentifiers''\<rparr>" 200 "[]"]
    by (auto simp: issued_def identifiers_page_token continuation_def kb_request_def
                   String_def query_def add_def)
qed

text \<open>
  C2. When a response yields a token, \<^verbatim>\<open>Harvest\<close> goes on with the request in which
  Set, MetadataPrefix and From are empty and ResumptionToken is the detected token,
  the other fields being as they were. The query of that request has no set,
  metadataPrefix or from parameter: it consists of verb, resumptionToken, identifier
  and until, in this order, those with an empty value left out; the resumptionToken
  parameter is always there, and so is the verb when the request has one. Against
  the scripted remote the GET that follows the callback has this target.
\<close>

theorem Harvest_continuation_request:
  assumes "http_Get (String req) s = (Decoded status r, sa)"
    and "batchCallback (Some r) sa = (None, sb)"
    and "ResumptionToken (Some r) = (True, tok)"
  shows "Harvest http_Get batchCallback req s =
           Harvest http_Get batchCallback (continuation req tok) sb
       \<and> continuation req tok =
           \<lparr>BaseUrl = BaseUrl req, Request.Set = '''', Request.MetadataPrefix = '''',
            Request.Verb = Request.Verb req, Request.Identifier = Request.Identifier req,
            Request.ResumptionToken = tok, From = '''', Until = Until req\<rparr>
       \<and> query (continuation req tok) =
           map spec_pair (filter (\<lambda>p. snd p \<noteq> '''')
             [(''verb'', Request.Verb req), (''resumptionToken'', tok),
              (''identifier'', Request.Identifier req), (''until'', Until req)])
       \<and> ''resumptionToken='' @ tok \<in> set (query (continuation req tok))
       \<and> (Request.Verb req \<noteq> '''' \<longrightarrow>
            ''verb='' @ Request.Verb req \<in> set (query (continuation req tok)))
       \<and> String (continuation req tok) =
           BaseUrl req @ ''?'' @ strings_Join (query (continuation req tok)) ''&''
       \<and> (\<exists>p q w' tl.
             Harvest remote_Get on_batch req \<lparr>answers = page (status, r) # rest, trace = tr\<rparr>
               = Some (p, q, w')
             \<and> trace w' = tr @ Get (String req) # Batch (Some r)
                              # Get (String (continuation req tok)) # tl)"
proof -
  have more: "more r" and tok: "token r = tok"
    using assms(3) by (simp_all add: more_def token_def)
  have ne: "tok \<noteq> ''''"
    using assms(3) by (auto simp: ResumptionToken_def Let_def split: if_splits)
  have step: "Harvest http_Get batchCallback req s =
              Harvest http_Get batchCallback (continuation req tok) sb"
    using Harvest_more [where http_Get = http_Get and cb = batchCallback, OF assms(1,2) more]
    by (simp add: tok)
  have rec: "continuation req tok =
           \<lparr>BaseUrl = BaseUrl req, Request.Set = '''', Request.MetadataPrefix = '''',
            Request.Verb = Request.Verb req, Request.Identifier = Request.Identifier req,
            Request.ResumptionToken = tok, From = '''', Until = Until req\<rparr>"
    by (simp add: continuation_def)
  have q: "query (continuation req tok) =
           map spec_pair (filter (\<lambda>p. snd p \<noteq> '''')
             [(''verb'', Request.Verb req), (''resumptionToken'', tok),
              (''identifier'', Request.Identifier req), (''until'', Until req)])"
    by (simp only: query_spec_query spec_query_continuation)
  have t: "''resumptionToken='' @ tok \<in> set (query (continuation req tok))"
    by (simp only: q) (simp add: ne spec_pair_def)
  have v: "Request.Verb req \<noteq> '''' \<longrightarrow>
            ''verb='' @ Request.Verb req \<in> set (query (continuation req tok))"
    by (simp only: q) (simp add: spec_pair_def)
  have str: "String (continuation req tok) =
           BaseUrl req @ ''?'' @ strings_Join (query (continuation req tok)) ''&''"
    by (simp add: String_def continuation_def)
  have first: "Harvest remote_Get on_batch req \<lparr>answers = page (status, r) # rest, trace = tr\<rparr> =
        Harvest remote_Get on_batch (continuation req tok)
          \<lparr>answers = rest, trace = tr @ [Get (String req), Batch (Some r)]\<rparr>"
    using Harvest_more [where http_Get = remote_Get and cb = on_batch and req = req
            and s = "\<lparr>answers = page (status, r) # rest, trace = tr\<rparr>" and st = status and r = r
            and sa = "\<lparr>answers = rest, trace = tr @ [Get (String req)]\<rparr>"
            and sb = "\<lparr>answers = rest, trace = tr @ [Get (String req), Batch (Some r)]\<rparr>"]
    by (simp add: remote_Get_Cons page_def on_batch_def emit_world more tok)
  obtain p q w' tl where
    "Harvest remote_Get on_batch (continuation req tok)
       \<lparr>answers = rest, trace = tr @ [Get (String req), Batch (Some r)]\<rparr> = Some (p, q, w')"
    "trace w' = (tr @ [Get (String req), Batch (Some r)]) @ Get (String (continuation req tok)) # tl"
    using Harvest_remote_returns [where cb = on_batch and out = "\<lambda>r. [Batch (Some r)]",
            OF on_batch_emits] by blast
  then have obs: "\<exists>p q w' tl.
             Harvest remote_Get on_batch req \<lparr>answers = page (status, r) # rest, trace = tr\<rparr>
               = Some (p, q, w')
             \<and> trace w' = tr @ Get (String req) # Batch (Some r)
                              # Get (String (continuation req tok)) # tl"
    using first by simp
  show ?thesis
    using step rec q t v str obs by (intro conjI)
qed

text \<open>C2 on the request of \<^verbatim>\<open>main\<close> with an until bound, answered with the token \<open>tok1\<close>.\<close>

theorem Harvest_continuation_request_witness:
  "Harvest remote_Get on_batch (kb_request\<lparr>Request.Verb := ''ListRecords'', Until := ''2013-01-01''\<rparr>)
     \<lparr>answers = [page (200, records_page [''a''] ''tok1''), page (200, records_page [''b''] '''')],
      trace = []\<rparr>
   = Harvest remote_Get on_batch
       (continuation (kb_request\<lparr>Request.Verb := ''ListRecords'', Until := ''2013-01-01''\<rparr>) ''tok1'')
       \<lparr>answers = [page (200, records_page [''b''] '''')],
        trace = [Get ''http://services.kb.nl/mdo/oai?verb=ListRecords&set=DTS&metadataPrefix=dcx&from=2012-09-06T014:00:00.000Z&until=2013-01-01'',
                 Batch (Some (records_page [''a''] ''tok1''))]\<rparr>
   \<and> query (continuation (kb_request\<lparr>Request.Verb := ''ListRecords'', Until := ''2013-01-01''\<rparr>) ''tok1'')
       = [''verb=ListRecords'', ''resumptionToken=tok1'', ''until=2013-01-01'']
   \<and> String (continuation (kb_request\<lparr>Request.Verb := ''ListRecords'', Until := ''2013-01-01''\<rparr>) ''tok1'')
       = ''http://services.kb.nl/mdo/oai?verb=ListRecords&resumptionToken=tok1&until=2013-01-01''"
proof -
  let ?req = "kb_request\<lparr>Request.Verb := ''ListRecords'', Until := ''2013-01-01''\<rparr>"
  let ?r = "records_page [''a''] ''tok1''"
  let ?rest = "[page (200, records_page [''b''] '''')]"
  let ?s = "\<lparr>answers = page (200, ?r) # ?rest, trace = []\<rparr>"
  let ?sa = "\<lparr>answers = ?rest, trace = [Get (String ?req)]\<rparr>"
  let ?sb = "\<lparr>answers = ?rest, trace = [Get (String ?req), Batch (Some ?r)]\<rparr>"
  have h1: "remote_Get (String ?req) ?s = (Decoded 200 ?r, ?sa)"
    by (simp add: remote_Get_Cons page_def)
  have h2: "on_batch (Some ?r) ?sa = (None, ?sb)"
    by (simp add: on_batch_def emit_world)
  have h3: "ResumptionToken (Some ?r) = (True, ''tok1'')"
    using records_page_token [of "[''a'']" "''tok1''"] by (simp add: more_def token_def prod_eq_iff)
  show ?thesis
    using Harvest_continuation_request [where http_Get = remote_Get and batchCallback = on_batch,
            OF h1 h2 h3]
    by (simp add: spec_pair_def kb_request_def String_def query_def add_def continuation_def)
qed

text \<open>
  C3 does not hold as stated: the counter \<open>i\<close> is a variable of the callback and
  starts at 0 on every page. With 3 channels and 7 items on two pages of 4 and 3
  items, the channels of the items are 0, 1, 2, 0, 0, 1, 2 and not
  0, 1, 2, 0, 1, 2, 0.
\<close>

theorem fan_out_cumulative_counterexample:
  "destinations (outcome_trace
     (ChannelHarvestIdentifiers remote_Get chan_send [0, 1, 2] kb_request
        \<lparr>answers = [page (200, identifiers_page [''a'', ''b'', ''c'', ''d''] ''t''),
                    page (200, identifiers_page [''e'', ''f'', ''g''] '''')],
         trace = []\<rparr>))
   = [0, 1, 2, 0, 0, 1, 2]
   \<and> destinations (outcome_trace
     (ChannelHarvestIdentifiers remote_Get chan_send [0, 1, 2] kb_request
        \<lparr>answers = [page (200, identifiers_page [''a'', ''b'', ''c'', ''d''] ''t''),
                    page (200, identifiers_page [''e'', ''f'', ''g''] '''')],
         trace = []\<rparr>))
   \<noteq> [0, 1, 2, 0, 1, 2, 0]"
proof -
  have h1: "[0, 1, 2] \<noteq> ([] :: chan list)"
    by simp
  have h2: "\<forall>p\<in>set [(200::int, identifiers_page [''a'', ''b'', ''c'', ''d''] ''t'')]. more (snd p)"
    by (simp add: identifiers_page_token)
  have h3: "\<not> more (identifiers_page [''e'', ''f'', ''g''] '''')"
    by (simp add: identifiers_page_token)
  show ?thesis
    using fan_out_complete [OF h1 h2 h3, of kb_request 200 "[]" "[]"]
    by (simp add: outcome_trace_def issued_def exchange_def destinations_append
                  deliveries_shown sentinels_shown identifiers_page_token page_items upt_rec)
qed

text \<open>
  C3, amended. In a fan-out harvest over \<open>N \<ge> 1\<close> channels that reaches its last
  page, item \<open>j\<close> of every page, counted from 0 within that page, is sent to the
  channel at position \<open>j mod N\<close>; the count starts again at 0 on each page. The
  sends of the harvest are those of the pages in order, then one nil per channel.
\<close>

theorem fan_out_round_robin_within_page:
  assumes "channels \<noteq> []"
    and "\<forall>p\<in>set pages. more (snd p)"
    and "\<not> more r"
  shows "\<exists>w'. ChannelHarvestIdentifiers remote_Get chan_send channels req
                \<lparr>answers = map page pages @ page (st, r) # rest, trace = []\<rparr>
              = Some (None,
                  last (issued (req\<lparr>Request.Verb := ''ListIdentifiers''\<rparr>) (map snd pages)), w')
          \<and> sends (trace w') =
              concat (map (\<lambda>r. map (\<lambda>j. Send (channels ! (j mod length channels))
                                            (Some (Headers (ListIdentifiers r) ! j)))
                                  [0..<length (Headers (ListIdentifiers r))])
                        (map snd pages @ [r]))
              @ map (\<lambda>c. Send c None) channels
          \<and> destinations (trace w') =
              concat (map (\<lambda>r. map (\<lambda>j. channels ! (j mod length channels))
                                  [0..<length (Headers (ListIdentifiers r))])
                        (map snd pages @ [r]))"
proof -
  let ?req = "req\<lparr>Request.Verb := ''ListIdentifiers''\<rparr>"
  let ?rs = "map snd pages"
  let ?out = "\<lambda>r. deliveries channels (Headers (ListIdentifiers r))"
  let ?T = "concat (map (exchange ?out) (zip (issued ?req ?rs) ?rs))
            @ exchange ?out (last (issued ?req ?rs), r) @ sentinels channels"
  have run: "ChannelHarvestIdentifiers remote_Get chan_send channels req
               \<lparr>answers = map page pages @ page (st, r) # rest, trace = []\<rparr>
             = Some (None, last (issued ?req ?rs), \<lparr>answers = rest, trace = ?T\<rparr>)"
    using fan_out_complete [OF assms, of req st rest "[]"] by simp
  have s: "sends ?T = concat (map ?out (?rs @ [r])) @ sentinels channels"
    by (simp add: sends_append fan_out_exchanges_shown exchange_def
                  deliveries_shown sentinels_shown zip_issued_snd_concat [where f = ?out])
  have d: "destinations ?T =
             concat (map (\<lambda>r. map (\<lambda>j. channels ! (j mod length channels))
                                 [0..<length (Headers (ListIdentifiers r))]) (?rs @ [r]))"
    by (simp add: destinations_append fan_out_exchanges_shown exchange_def
                  deliveries_shown sentinels_shown
                  zip_issued_snd_concat [where f = "\<lambda>r. map (\<lambda>j. channels ! (j mod length channels))
                                 [0..<length (Headers (ListIdentifiers r))]"])
  show ?thesis
    using run s d
    by (intro exI [of _ "\<lparr>answers = rest, trace = ?T\<rparr>"])
       (simp add: deliveries_def sentinels_def)
qed

text \<open>
  C3, amended, with 3 channels and 7 items on two pages of 3 and 4 items: the
  channels are 0, 1, 2, 0, 1, 2, 0.
\<close>

theorem fan_out_round_robin_within_page_witness:
  "\<exists>w'. ChannelHarvestIdentifiers remote_Get chan_send [0, 1, 2] kb_request
           \<lparr>answers = [page (200, identifiers_page [''a'', ''b'', ''c''] ''t''),
                       page (200, identifiers_page [''d'', ''e'', ''f'', ''g''] '''')],
            trace = []\<rparr>
         = Some (None, continuation (kb_request\<lparr>Request.Verb := ''ListIdentifiers''\<rparr>) ''t'', w')
       \<and> destinations (trace w') = [0, 1, 2, 0, 1, 2, 0]"
proof -
  have h1: "[0, 1, 2] \<noteq> ([] :: chan list)"
    by simp
  have h2: "\<forall>p\<in>set [(200::int, identifiers_page [''a'', ''b'', ''c''] ''t'')]. more (snd p)"
    by (simp add: identifiers_page_token)
  have h3: "\<not> more (identifiers_page [''d'', ''e'', ''f'', ''g''] '''')"
    by (simp add: identifiers_page_token)
  show ?thesis
    using fan_out_round_robin_within_page [OF h1 h2 h3, of kb_request 200 "[]"]
    by (auto simp: issued_def identifiers_page_token page_items upt_rec)
qed

text \<open>
  C4. The detector returns the token of the ListIdentifiers payload when that is not
  empty and the token of the ListRecords payload otherwise, and reports a token
  exactly when the returned string is not empty: two empty fields give
  \<open>(False, '''')\<close>, and a non-empty identifiers-list token wins whatever the
  records-list field holds.
\<close>

theorem ResumptionToken_precedence:
  "ResumptionToken (Some resp) =
     (if ListIdentifiers.ResumptionToken (ListIdentifiers resp) \<noteq> ''''
      then (True, ListIdentifiers.ResumptionToken (ListIdentifiers resp))
      else (ListRecords.ResumptionToken (ListRecords resp) \<noteq> '''',
            ListRecords.ResumptionToken (ListRecords resp)))
   \<and> fst (ResumptionToken (Some resp)) = (snd (ResumptionToken (Some resp)) \<noteq> '''')
   \<and> ResumptionToken
        (Some (resp\<lparr>ListIdentifiers := \<lparr>Headers = hs, ListIdentifiers.ResumptionToken = ''''\<rparr>,
                    ListRecords := \<lparr>Records = rs, ListRecords.ResumptionToken = ''''\<rparr>\<rparr>))
       = (False, '''')
   \<and> ResumptionToken
        (Some (resp\<lparr>ListIdentifiers := \<lparr>Headers = hs, ListIdentifiers.ResumptionToken = c # cs\<rparr>,
                    ListRecords := \<lparr>Records = rs, ListRecords.ResumptionToken = other\<rparr>\<rparr>))
       = (True, c # cs)"
  by (simp add: ResumptionToken_def Let_def)

text \<open>
  C5. The serialized target of a request is its base address followed by \<open>?\<close> and the
  query string made of exactly the non-empty parameters among verb, set,
  metadataPrefix, resumptionToken, identifier, from, until, in that order, each one as
  \<open>name=value\<close> with the value copied unchanged, joined by \<open>&\<close>; a parameter with an
  empty value does not appear. So a request with all seven parameters, some of them
  with a colon, a slash, a blank, an \<open>&\<close> or an \<open>=\<close> in the value, the request of
  \<^verbatim>\<open>main\<close> with three parameters, and a request with none have the targets below.
\<close>

theorem String_is_spec_target:
  "String req = spec_target req
   \<and> String full_request =
       ''http://example.org/oai?verb=ListRecords&set=a:b&metadataPrefix=oai_dc&resumptionToken=p q&r=s&identifier=oai:x/1&from=2012-09-06T14:00:00Z&until=2013-01-01''
   \<and> spec_target full_request =
       ''http://example.org/oai?verb=ListRecords&set=a:b&metadataPrefix=oai_dc&resumptionToken=p q&r=s&identifier=oai:x/1&from=2012-09-06T14:00:00Z&until=2013-01-01''
   \<and> String kb_request =
       ''http://services.kb.nl/mdo/oai?set=DTS&metadataPrefix=dcx&from=2012-09-06T014:00:00.000Z''
   \<and> spec_target kb_request =
       ''http://services.kb.nl/mdo/oai?set=DTS&metadataPrefix=dcx&from=2012-09-06T014:00:00.000Z''
   \<and> String bare_request = ''http://example.org/oai?''
   \<and> spec_target bare_request = ''http://example.org/oai?''"
proof -
  have general: "String req = spec_target req"
    by (simp add: String_def spec_target_def query_spec_query strings_Join_spec_joined)
  have full: "String full_request =
       ''http://example.org/oai?verb=ListRecords&set=a:b&metadataPrefix=oai_dc&resumptionToken=p q&r=s&identifier=oai:x/1&from=2012-09-06T14:00:00Z&until=2013-01-01''"
    by (simp add: String_def query_def add_def full_request_def)
  have full_spec: "spec_target full_request =
       ''http://example.org/oai?verb=ListRecords&set=a:b&metadataPrefix=oai_dc&resumptionToken=p q&r=s&identifier=oai:x/1&from=2012-09-06T14:00:00Z&until=2013-01-01''"
    by (simp add: spec_target_def spec_joined_def spec_query_def spec_parameters_def
                  spec_pair_def full_request_def)
  have kb: "String kb_request =
       ''http://services.kb.nl/mdo/oai?set=DTS&metadataPrefix=dcx&from=2012-09-06T014:00:00.000Z''"
    by (simp add: String_def query_def add_def kb_request_def)
  have kb_spec: "spec_target kb_request =
       ''http://services.kb.nl/mdo/oai?set=DTS&metadataPrefix=dcx&from=2012-09-06T014:00:00.000Z''"
    by (simp add: spec_target_def spec_joined_def spec_query_def spec_parameters_def
                  spec_pair_def kb_request_def)
  have bare: "String bare_request = ''http://example.org/oai?''"
    by (simp add: String_def query_def add_def bare_request_def)
  have bare_spec: "spec_target bare_request = ''http://example.org/oai?''"
    by (simp add: spec_target_def spec_joined_def spec_query_def spec_parameters_def
                  spec_pair_def bare_request_def)
  show ?thesis
    using general full full_spec kb kb_spec bare bare_spec by (intro conjI)
qed

text \<open>
  C6 does not hold as stated for the HTTP status: \<^verbatim>\<open>Perform\<close> never reads the status
  code. A response with status 500 whose body decodes is returned like any other,
  and the harvest delivers it to the callback and returns without a panic.
\<close>

theorem Perform_status_counterexample:
  "Perform remote_Get kb_request
     \<lparr>answers = [Decoded 500 (identifiers_page [''a''] '''')], trace = []\<rparr>
   = (Inr (Some (identifiers_page [''a''] '''')),
      \<lparr>answers = [],
       trace = [Get ''http://services.kb.nl/mdo/oai?set=DTS&metadataPrefix=dcx&from=2012-09-06T014:00:00.000Z'']\<rparr>)
   \<and> Harvest remote_Get on_batch kb_request
     \<lparr>answers = [Decoded 500 (identifiers_page [''a''] '''')], trace = []\<rparr>
   = Some (None, kb_request,
      \<lparr>answers = [],
       trace = [Get ''http://services.kb.nl/mdo/oai?set=DTS&metadataPrefix=dcx&from=2012-09-06T014:00:00.000Z'',
                Batch (Some (identifiers_page [''a''] ''''))]\<rparr>)"
proof -
  have stop: "\<not> more (identifiers_page [''a''] '''')"
    by (simp add: identifiers_page_token)
  have "Harvest remote_Get on_batch kb_request
          \<lparr>answers = map page [] @ page (500, identifiers_page [''a''] '''') # [], trace = []\<rparr>
        = Some (None, kb_request,
            \<lparr>answers = [],
             trace = [Get (String kb_request), Batch (Some (identifiers_page [''a''] ''''))]\<rparr>)"
    using Harvest_complete [where cb = on_batch and out = "\<lambda>r. [Batch (Some r)]" and pages = "[]"
            and tr = "[]", OF on_batch_emits _ stop]
    by (simp add: issued_def exchange_def)
  then show ?thesis
    by (simp add: Perform_def remote_Get_Cons page_def String_def query_def add_def kb_request_def)
qed

text \<open>
  C6, amended. A failure of the GET, of reading the body or of decoding it makes
  \<^verbatim>\<open>Perform\<close> panic: no response is returned, and a harvest ends with that panic in
  the state the failed GET left, without invoking the callback and without a further
  GET, whatever the transport and the callback; after any number of pages, the
  scripted remote keeps the answers it had not yet given. The status code is not
  inspected: a decoded response is returned whatever its status.
\<close>

theorem Perform_failure_aborts_harvest:
  assumes "a = GetError \<or> a = ReadAllError status \<or> a = UnmarshalError status"
    and "\<forall>p\<in>set pages. more (snd p)"
  shows "\<exists>p.
           (http_Get (String req) s = (a, sa) \<longrightarrow>
              Perform http_Get req s = (Inl p, sa)
              \<and> Harvest http_Get batchCallback req s = Some (Some p, req, sa))
         \<and> Harvest remote_Get on_batch req \<lparr>answers = map page pages @ a # rest, trace = []\<rparr> =
             Some (Some p, last (issued req (map snd pages)),
               \<lparr>answers = rest,
                trace = concat (map (\<lambda>x. [Get (String (fst x)), Batch (Some (snd x))])
                                  (zip (issued req (map snd pages)) (map snd pages)))
                        @ [Get (String (last (issued req (map snd pages))))]\<rparr>)
         \<and> (http_Get (String req) s = (Decoded code r, sa) \<longrightarrow>
              Perform http_Get req s = (Inr (Some r), sa))"
proof -
  obtain p where p: "failure a = Some p"
    using assms(1) by auto
  have perform: "http_Get (String req) s = (a, sa) \<longrightarrow> Perform http_Get req s = (Inl p, sa)"
    using assms(1) p by (auto simp: Perform_def)
  have harvest: "http_Get (String req) s = (a, sa) \<longrightarrow>
                 Harvest http_Get batchCallback req s = Some (Some p, req, sa)"
    using Harvest_failure [where http_Get = http_Get and cb = batchCallback, OF _ p] by simp
  have script: "Harvest remote_Get on_batch req
                  \<lparr>answers = map page pages @ a # rest, trace = []\<rparr> =
             Some (Some p, last (issued req (map snd pages)),
               \<lparr>answers = rest,
                trace = concat (map (\<lambda>x. [Get (String (fst x)), Batch (Some (snd x))])
                                  (zip (issued req (map snd pages)) (map snd pages)))
                        @ [Get (String (last (issued req (map snd pages))))]\<rparr>)"
    using Harvest_aborted [where cb = on_batch and out = "\<lambda>r. [Batch (Some r)]" and tr = "[]",
            OF on_batch_emits assms(2) p]
    by (simp add: exchange_batch)
  have ok: "http_Get (String req) s = (Decoded code r, sa) \<longrightarrow>
              Perform http_Get req s = (Inr (Some r), sa)"
    by (simp add: Perform_def)
  show ?thesis
    using perform harvest script ok by (intro exI [of _ p]) simp
qed

text \<open>C6, amended, on a decode failure of the second GET of a harvest.\<close>

theorem Perform_failure_aborts_harvest_witness:
  "\<exists>p. Perform remote_Get kb_request \<lparr>answers = [UnmarshalError 200], trace = []\<rparr>
         = (Inl p, \<lparr>answers = [], trace = [Get (String kb_request)]\<rparr>)
       \<and> Harvest remote_Get on_batch kb_request
           \<lparr>answers = [page (200, identifiers_page [''a''] ''t''), UnmarshalError 200,
                       page (200, identifiers_page [''b''] '''')],
            trace = []\<rparr>
         = Some (Some p, continuation kb_request ''t'',
             \<lparr>answers = [page (200, identifiers_page [''b''] '''')],
              trace = [Get (String kb_request), Batch (Some (identifiers_page [''a''] ''t'')),
                       Get (String (continuation kb_request ''t''))]\<rparr>)"
proof -
  have h1: "UnmarshalError 200 = GetError \<or> UnmarshalError 200 = ReadAllError 200
            \<or> UnmarshalError 200 = UnmarshalError 200"
    by simp
  have h2: "\<forall>p\<in>set [(200::int, identifiers_page [''a''] ''t'')]. more (snd p)"
    by (simp add: identifiers_page_token)
  have get: "remote_Get (String kb_request) \<lparr>answers = [UnmarshalError 200], trace = []\<rparr> =
             (UnmarshalError 200, \<lparr>answers = [], trace = [Get (String kb_request)]\<rparr>)"
    by (simp add: remote_Get_Cons)
  show ?thesis
    using Perform_failure_aborts_harvest [OF h1 h2, where http_Get = remote_Get
            and batchCallback = on_batch and code = 200 and r = zero_Response
            and req = kb_request and s = "\<lparr>answers = [UnmarshalError 200], trace = []\<rparr>"
            and sa = "\<lparr>answers = [], trace = [Get (String kb_request)]\<rparr>"
            and rest = "[page (200, identifiers_page [''b''] '''')]"] get
    by (auto simp: issued_def identifiers_page_token)
qed

text \<open>
  C7. A response whose ListIdentifiers and ListRecords payloads are empty, whatever
  its error element holds: the detector finds no token, and what it finds does not
  depend on the error element; the harvest performs one GET, hands the response to
  the callback as it does with any page, and returns without a panic, for the
  scripted remote as for any transport and any callback that returns.
\<close>

theorem Harvest_error_envelope:
  assumes "ListIdentifiers r = \<lparr>Headers = [], ListIdentifiers.ResumptionToken = ''''\<rparr>"
    and "ListRecords r = \<lparr>Records = [], ListRecords.ResumptionToken = ''''\<rparr>"
  shows "ResumptionToken (Some r) = (False, '''')
       \<and> ResumptionToken (Some (r\<lparr>Error := e\<rparr>)) = ResumptionToken (Some r)
       \<and> Harvest remote_Get on_batch req \<lparr>answers = page (status, r) # rest, trace = tr\<rparr> =
           Some (None, req, \<lparr>answers = rest, trace = tr @ [Get (String req), Batch (Some r)]\<rparr>)
       \<and> (http_Get (String req) s = (Decoded status r, sa)
            \<and> batchCallback (Some r) sa = (None, sb) \<longrightarrow>
              Harvest http_Get batchCallback req s = Some (None, req, sb))"
proof -
  have tok: "ResumptionToken (Some r) = (False, '''')"
    by (simp add: ResumptionToken_def assms)
  then have stop: "\<not> more r"
    by (simp add: more_def)
  have err: "ResumptionToken (Some (r\<lparr>Error := e\<rparr>)) = ResumptionToken (Some r)"
    by (simp add: ResumptionToken_def Let_def)
  have script: "Harvest remote_Get on_batch req \<lparr>answers = page (status, r) # rest, trace = tr\<rparr> =
           Some (None, req, \<lparr>answers = rest, trace = tr @ [Get (String req), Batch (Some r)]\<rparr>)"
    using Harvest_complete [where cb = on_batch and out = "\<lambda>r. [Batch (Some r)]" and pages = "[]",
            OF on_batch_emits _ stop]
    by (simp add: issued_def exchange_def)
  have gen: "http_Get (String req) s = (Decoded status r, sa)
            \<and> batchCallback (Some r) sa = (None, sb) \<longrightarrow>
              Harvest http_Get batchCallback req s = Some (None, req, sb)"
    using Harvest_done [where http_Get = http_Get and cb = batchCallback and req = req
            and s = s and st = status and r = r and sa = sa and sb = sb] stop
    by simp
  show ?thesis
    using tok err script gen by (intro conjI)
qed

text \<open>C7 on a \<open>badArgument\<close> error response.\<close>

theorem Harvest_error_envelope_witness:
  "ResumptionToken (Some (error_page ''badArgument'' ''Illegal argument'')) = (False, '''')
   \<and> Harvest remote_Get on_batch kb_request
       \<lparr>answers = [page (200, error_page ''badArgument'' ''Illegal argument'')], trace = []\<rparr>
     = Some (None, kb_request,
         \<lparr>answers = [],
          trace = [Get (String kb_request),
                   Batch (Some (error_page ''badArgument'' ''Illegal argument''))]\<rparr>)"
proof -
  let ?r = "error_page ''badArgument'' ''Illegal argument''"
  have h1: "ListIdentifiers ?r = \<lparr>Headers = [], ListIdentifiers.ResumptionToken = ''''\<rparr>"
    by (simp add: error_page_def zero_Response_def zero_ListIdentifiers_def)
  have h2: "ListRecords ?r = \<lparr>Records = [], ListRecords.ResumptionToken = ''''\<rparr>"
    by (simp add: error_page_def zero_Response_def zero_ListRecords_def)
  show ?thesis
    using Harvest_error_envelope [OF h1 h2, where req = kb_request and status = 200
            and rest = "[]" and tr = "[]" and e = "\<lparr>Code = [], Message = []\<rparr>"
            and http_Get = remote_Get and batchCallback = on_batch
            and s = "\<lparr>answers = [], trace = []\<rparr>" and sa = "\<lparr>answers = [], trace = []\<rparr>"
            and sb = "\<lparr>answers = [], trace = []\<rparr>"]
    by simp
qed

text \<open>
  C8. In a fan-out harvest over \<open>N \<ge> 1\<close> channels that reaches its last page, the
  trace ends with the sends of the items of the last page followed by one nil for
  each position of the channel slice, in the order of the slice; no nil is sent
  before, so none on a page with a token; a channel that occurs once in the slice
  receives exactly one nil; and no channel is closed.
\<close>

theorem fan_out_sentinel_once_at_end:
  assumes "channels \<noteq> []"
    and "\<forall>p\<in>set pages. more (snd p)"
    and "\<not> more r"
  shows "\<exists>w' before.
            ChannelHarvestIdentifiers remote_Get chan_send channels req
                \<lparr>answers = map page pages @ page (st, r) # rest, trace = []\<rparr>
              = Some (None,
                  last (issued (req\<lparr>Request.Verb := ''ListIdentifiers''\<rparr>) (map snd pages)), w')
          \<and> trace w' = before @ deliveries channels (Headers (ListIdentifiers r))
                          @ map (\<lambda>c. Send c None) channels
          \<and> sentinel_targets before = []
          \<and> sentinel_targets (deliveries channels (Headers (ListIdentifiers r))) = []
          \<and> sentinel_targets (trace w') = channels
          \<and> (distinct channels \<longrightarrow>
               (\<forall>c\<in>set channels. count_list (sentinel_targets (trace w')) c = 1))
          \<and> closed (trace w') = []"
proof -
  let ?req = "req\<lparr>Request.Verb := ''ListIdentifiers''\<rparr>"
  let ?rs = "map snd pages"
  let ?out = "\<lambda>r. deliveries channels (Headers (ListIdentifiers r))"
  let ?B = "concat (map (exchange ?out) (zip (issued ?req ?rs) ?rs))
            @ [Get (String (last (issued ?req ?rs)))]"
  let ?T = "?B @ deliveries channels (Headers (ListIdentifiers r)) @ sentinels channels"
  have run: "ChannelHarvestIdentifiers remote_Get chan_send channels req
               \<lparr>answers = map page pages @ page (st, r) # rest, trace = []\<rparr>
             = Some (None, last (issued ?req ?rs), \<lparr>answers = rest, trace = ?T\<rparr>)"
    using fan_out_complete [OF assms, of req st rest "[]"] by (simp add: exchange_def)
  have b: "sentinel_targets ?B = []"
    by (simp add: sentinel_targets_append fan_out_exchanges_shown)
  have "sentinel_targets ?T =
        sentinel_targets ?B @ sentinel_targets (deliveries channels (Headers (ListIdentifiers r)))
          @ sentinel_targets (sentinels channels)"
    by (simp only: sentinel_targets_append)
  then have t: "sentinel_targets ?T = channels"
    by (simp only: b deliveries_shown sentinels_shown) simp
  have c: "closed ?T = []"
    by (simp add: closed_append fan_out_exchanges_shown deliveries_shown sentinels_shown)
  have one: "distinct channels \<longrightarrow> (\<forall>c\<in>set channels. count_list (sentinel_targets ?T) c = 1)"
    by (simp only: t) (simp add: distinct_count_list)
  show ?thesis
    using run b t c one
    by (intro exI [of _ "\<lparr>answers = rest, trace = ?T\<rparr>"] exI [of _ ?B])
       (simp add: deliveries_shown sentinels_def)
qed

text \<open>C8 with 3 channels and two pages of 4 and 2 items.\<close>

theorem fan_out_sentinel_once_at_end_witness:
  "\<exists>w' before.
     ChannelHarvestIdentifiers remote_Get chan_send [0, 1, 2] kb_request
           \<lparr>answers = [page (200, identifiers_page [''a'', ''b'', ''c'', ''d''] ''t''),
                       page (200, identifiers_page [''e'', ''f''] '''')],
            trace = []\<rparr>
         = Some (None, continuation (kb_request\<lparr>Request.Verb := ''ListIdentifiers''\<rparr>) ''t'', w')
     \<and> trace w' = before @ [Send 0 (Some (header_named ''e'')), Send 1 (Some (header_named ''f'')),
                             Send 0 None, Send 1 None, Send 2 None]
     \<and> sentinel_targets before = []
     \<and> sentinel_targets (trace w') = [0, 1, 2]
     \<and> count_list (sentinel_targets (trace w')) 1 = 1
     \<and> closed (trace w') = []"
proof -
  have h1: "[0, 1, 2] \<noteq> ([] :: chan list)"
    by simp
  have h2: "\<forall>p\<in>set [(200::int, identifiers_page [''a'', ''b'', ''c'', ''d''] ''t'')]. more (snd p)"
    by (simp add: identifiers_page_token)
  have h3: "\<not> more (identifiers_page [''e'', ''f''] '''')"
    by (simp add: identifiers_page_token)
  show ?thesis
    using fan_out_sentinel_once_at_end [OF h1 h2 h3, of kb_request 200 "[]"]
    by (auto simp: issued_def identifiers_page_token page_items deliveries_def upt_rec)
qed

text \<open>
  C9. In a harvest per identifier or per record that reaches its last page, the
  trace is, page after page in the order of the answers, the GET of the page
  followed by one invocation of the callback for each item of the page in the order
  of the page, all before the GET of the next page: the items the callback receives
  are the items of all pages, in order.
\<close>

theorem per_item_callbacks_in_wire_order:
  assumes "\<forall>p\<in>set pages. more (snd p)"
    and "\<not> more r"
  shows "(\<exists>w'. HarvestIdentifiers remote_Get on_header req
                 \<lparr>answers = map page pages @ page (st, r) # rest, trace = []\<rparr>
               = Some (None,
                   last (issued (req\<lparr>Request.Verb := ''ListIdentifiers''\<rparr>) (map snd pages)), w')
            \<and> trace w' =
                concat (map (\<lambda>x. Get (String (fst x))
                                   # map GotHeader (Headers (ListIdentifiers (snd x))))
                          (zip (issued (req\<lparr>Request.Verb := ''ListIdentifiers''\<rparr>) (map snd pages))
                               (map snd pages)))
                @ Get (String (last (issued (req\<lparr>Request.Verb := ''ListIdentifiers''\<rparr>)
                                       (map snd pages))))
                  # map GotHeader (Headers (ListIdentifiers r))
            \<and> headers_seen (trace w') =
                concat (map (\<lambda>r. Headers (ListIdentifiers r)) (map snd pages @ [r])))
       \<and> (\<exists>w'. HarvestRecords remote_Get on_record req
                 \<lparr>answers = map page pages @ page (st, r) # rest, trace = []\<rparr>
               = Some (None,
                   last (issued (req\<lparr>Request.Verb := ''ListRecords''\<rparr>) (map snd pages)), w')
            \<and> trace w' =
                concat (map (\<lambda>x. Get (String (fst x))
                                   # map GotRecord (Records (ListRecords (snd x))))
                          (zip (issued (req\<lparr>Request.Verb := ''ListRecords''\<rparr>) (map snd pages))
                               (map snd pages)))
                @ Get (String (last (issued (req\<lparr>Request.Verb := ''ListRecords''\<rparr>)
                                       (map snd pages))))
                  # map GotRecord (Records (ListRecords r))
            \<and> records_seen (trace w') =
                concat (map (\<lambda>r. Records (ListRecords r)) (map snd pages @ [r])))"
proof -
  let ?rs = "map snd pages"
  let ?qi = "req\<lparr>Request.Verb := ''ListIdentifiers''\<rparr>"
  let ?qr = "req\<lparr>Request.Verb := ''ListRecords''\<rparr>"
  let ?oi = "\<lambda>r. map GotHeader (Headers (ListIdentifiers r))"
  let ?or = "\<lambda>r. map GotRecord (Records (ListRecords r))"
  let ?Ti = "concat (map (exchange ?oi) (zip (issued ?qi ?rs) ?rs))
             @ exchange ?oi (last (issued ?qi ?rs), r)"
  let ?Tr = "concat (map (exchange ?or) (zip (issued ?qr ?rs) ?rs))
             @ exchange ?or (last (issued ?qr ?rs), r)"
  let ?ci = "\<lambda>resp s. case resp of
                 None \<Rightarrow> (Some NilDereference, s)
               | Some r \<Rightarrow> (let headers = Headers (ListIdentifiers r)
                            in for_range on_header headers s)"
  let ?cr = "\<lambda>resp s. case resp of
                 None \<Rightarrow> (Some NilDereference, s)
               | Some r \<Rightarrow> (let records = Records (ListRecords r)
                            in for_range on_record records s)"
  have ci: "?ci (Some r) w = (None, emit (?oi r) w)" for r :: Response and w
    by (simp add: for_range_on_header)
  have cr: "?cr (Some r) w = (None, emit (?or r) w)" for r :: Response and w
    by (simp add: for_range_on_record)
  have runi: "HarvestIdentifiers remote_Get on_header req
                \<lparr>answers = map page pages @ page (st, r) # rest, trace = []\<rparr>
              = Some (None, last (issued ?qi ?rs), \<lparr>answers = rest, trace = ?Ti\<rparr>)"
    unfolding HarvestIdentifiers_def
    by (subst Harvest_complete [where cb = ?ci and out = ?oi, OF ci assms]) simp
  have runr: "HarvestRecords remote_Get on_record req
                \<lparr>answers = map page pages @ page (st, r) # rest, trace = []\<rparr>
              = Some (None, last (issued ?qr ?rs), \<lparr>answers = rest, trace = ?Tr\<rparr>)"
    unfolding HarvestRecords_def
    by (subst Harvest_complete [where cb = ?cr and out = ?or, OF cr assms]) simp
  have si: "headers_seen ?Ti = concat (map (\<lambda>r. Headers (ListIdentifiers r)) (?rs @ [r]))"
    by (simp add: headers_seen_append seen_exchanges seen_items exchange_def
          zip_issued_snd_concat [where f = "\<lambda>r. Headers (ListIdentifiers r)"])
  have sr: "records_seen ?Tr = concat (map (\<lambda>r. Records (ListRecords r)) (?rs @ [r]))"
    by (simp add: records_seen_append seen_exchanges seen_items exchange_def
          zip_issued_snd_concat [where f = "\<lambda>r. Records (ListRecords r)"])
  have "\<exists>w'. HarvestIdentifiers remote_Get on_header req
                 \<lparr>answers = map page pages @ page (st, r) # rest, trace = []\<rparr>
               = Some (None, last (issued ?qi ?rs), w')
            \<and> trace w' =
                concat (map (\<lambda>x. Get (String (fst x))
                                   # map GotHeader (Headers (ListIdentifiers (snd x))))
                          (zip (issued ?qi ?rs) ?rs))
                @ Get (String (last (issued ?qi ?rs))) # map GotHeader (Headers (ListIdentifiers r))
            \<and> headers_seen (trace w') =
                concat (map (\<lambda>r. Headers (ListIdentifiers r)) (?rs @ [r]))"
    using runi si
    by (intro exI [of _ "\<lparr>answers = rest, trace = ?Ti\<rparr>"]) (simp add: exchange_unfold)
  moreover have "\<exists>w'. HarvestRecords remote_Get on_record req
                 \<lparr>answers = map page pages @ page (st, r) # rest, trace = []\<rparr>
               = Some (None, last (issued ?qr ?rs), w')
            \<and> trace w' =
                concat (map (\<lambda>x. Get (String (fst x))
                                   # map GotRecord (Records (ListRecords (snd x))))
                          (zip (issued ?qr ?rs) ?rs))
                @ Get (String (last (issued ?qr ?rs))) # map GotRecord (Records (ListRecords r))
            \<and> records_seen (trace w') =
                concat (map (\<lambda>r. Records (ListRecords r)) (?rs @ [r]))"
    using runr sr
    by (intro exI [of _ "\<lparr>answers = rest, trace = ?Tr\<rparr>"]) (simp add: exchange_unfold)
  ultimately show ?thesis by (rule conjI)
qed

text \<open>C9 on two pages of 2 and 1 identifiers.\<close>

theorem per_item_callbacks_in_wire_order_witness:
  "(\<exists>w'. HarvestIdentifiers remote_Get on_header kb_request
           \<lparr>answers = [page (200, identifiers_page [''a'', ''b''] ''t''),
                       page (200, identifiers_page [''c''] '''')],
            trace = []\<rparr>
          = Some (None, continuation (kb_request\<lparr>Request.Verb := ''ListIdentifiers''\<rparr>) ''t'', w')
        \<and> trace w' =
            [Get (String (kb_request\<lparr>Request.Verb := ''ListIdentifiers''\<rparr>)),
             GotHeader (header_named ''a''), GotHeader (header_named ''b''),
             Get (String (continuation (kb_request\<lparr>Request.Verb := ''ListIdentifiers''\<rparr>) ''t'')),
             GotHeader (header_named ''c'')])
   \<and> (\<exists>w'. HarvestRecords remote_Get on_record kb_request
           \<lparr>answers = [page (200, identifiers_page [''a'', ''b''] ''t''),
                       page (200, identifiers_page [''c''] '''')],
            trace = []\<rparr>
          = Some (None, continuation (kb_request\<lparr>Request.Verb := ''ListRecords''\<rparr>) ''t'', w')
        \<and> records_seen (trace w') = [])"
proof -
  have h1: "\<forall>p\<in>set [(200::int, identifiers_page [''a'', ''b''] ''t'')]. more (snd p)"
    by (simp add: identifiers_page_token)
  have h2: "\<not> more (identifiers_page [''c''] '''')"
    by (simp add: identifiers_page_token)
  show ?thesis
    using per_item_callbacks_in_wire_order [OF h1 h2, of kb_request 200 "[]"]
    by (auto simp: issued_def identifiers_page_token page_items)
qed

text \<open>
  C10. The detector applied to the nil pointer returns \<open>(False, '''')\<close>, which is also
  what it returns for a response whose two token fields are empty.
\<close>

theorem ResumptionToken_nil:
  "ResumptionToken None = (False, '''')
   \<and> ResumptionToken None =
       ResumptionToken
         (Some (resp\<lparr>ListIdentifiers := li\<lparr>ListIdentifiers.ResumptionToken := ''''\<rparr>,
                     ListRecords := lr\<lparr>ListRecords.ResumptionToken := ''''\<rparr>\<rparr>))"
  by (simp add: ResumptionToken_def Let_def)

end
